theory Spec2Isabelle
  imports Main "HOL-Library.AList"
begin

section \<open>Data model\<close>

text \<open>
  A TypeScript field of type \<open>T | null\<close> that may also be left out (\<open>field?:\<close>) has three
  run-time shapes: the key is missing (reads as \<open>undefined\<close>), it holds \<open>null\<close>, or it
  holds a value. The same three shapes describe what reading an array cell gives:
  \<open>undefined\<close> past the end of the array, \<open>null\<close>, or a string.
\<close>

datatype 'a nullable = Undefined | Null | Value 'a

text \<open>The operator \<open>a ?? b\<close>: \<open>b\<close> when \<open>a\<close> is \<open>null\<close> or \<open>undefined\<close>, otherwise \<open>a\<close>.\<close>

fun nullish :: "'a nullable \<Rightarrow> 'a nullable \<Rightarrow> 'a nullable" where
  "nullish (Value a) b = Value a"
| "nullish Null b = b"
| "nullish Undefined b = b"

text \<open>
  \<open>(string | null)[][]\<close>: a list of rows, each a list of cells, \<open>None\<close> for \<open>null\<close>.
  Nothing makes the rows as long as the schema.
\<close>

type_synonym grid = "string option list list"

record SchemaField =
  name :: string
  data_type :: string

record ReportResultEntry =
  idx :: string
  result :: "grid nullable"
  data :: "grid nullable"
  error :: "string nullable"
  schema :: "SchemaField list nullable"

text \<open>
  The private fields of class \<open>DatalatheResultSet\<close>: \<open>data\<close>, \<open>schema\<close>, \<open>currentRow\<close>
  and \<open>_wasNull\<close>. Row numbers and column indices are the integers among JavaScript's
  numbers.
\<close>

record DatalatheResultSet =
  rs_data :: grid
  rs_schema :: "SchemaField list"
  currentRow :: int
  rs_wasNull :: bool

text \<open>The constructor: \<open>result.result ?? result.data ?? []\<close> and \<open>result.schema ?? []\<close>.\<close>

definition new_rs :: "ReportResultEntry \<Rightarrow> DatalatheResultSet" where
  "new_rs e =
     \<lparr> rs_data = (case nullish (nullish (result e) (data e)) (Value []) of
                    Value g \<Rightarrow> g | _ \<Rightarrow> []),
       rs_schema = (case nullish (schema e) (Value []) of Value s \<Rightarrow> s | _ \<Rightarrow> []),
       currentRow = -1,
       rs_wasNull = False \<rparr>"

text \<open>The getter \<open>rowCount\<close>: \<open>this.data.length\<close>.\<close>

definition rowCount :: "DatalatheResultSet \<Rightarrow> int" where
  "rowCount c = int (length (rs_data c))"

section \<open>Cursor navigation\<close>

text \<open>\<open>return ++this.currentRow < this.data.length\<close>: the increment has no guard.\<close>

definition next_rs :: "DatalatheResultSet \<Rightarrow> bool \<times> DatalatheResultSet" where
  "next_rs c =
     (let c' = c\<lparr>currentRow := currentRow c + 1\<rparr>
      in (currentRow c' < int (length (rs_data c')), c'))"

definition previous :: "DatalatheResultSet \<Rightarrow> bool \<times> DatalatheResultSet" where
  "previous c =
     (if currentRow c \<le> 0 then (False, c)
      else (True, c\<lparr>currentRow := currentRow c - 1\<rparr>))"

definition first :: "DatalatheResultSet \<Rightarrow> bool \<times> DatalatheResultSet" where
  "first c =
     (if length (rs_data c) = 0 then (False, c)
      else (True, c\<lparr>currentRow := 0\<rparr>))"

definition last_rs :: "DatalatheResultSet \<Rightarrow> bool \<times> DatalatheResultSet" where
  "last_rs c =
     (if length (rs_data c) = 0 then (False, c)
      else (True, c\<lparr>currentRow := int (length (rs_data c)) - 1\<rparr>))"

definition beforeFirst :: "DatalatheResultSet \<Rightarrow> DatalatheResultSet" where
  "beforeFirst c = c\<lparr>currentRow := -1\<rparr>"

definition afterLast :: "DatalatheResultSet \<Rightarrow> DatalatheResultSet" where
  "afterLast c = c\<lparr>currentRow := int (length (rs_data c))\<rparr>"

definition absolute :: "DatalatheResultSet \<Rightarrow> int \<Rightarrow> bool \<times> DatalatheResultSet" where
  "absolute c row0 =
     (let row = (if row0 < 0 then int (length (rs_data c)) + row0 + 1 else row0)
      in if row < 1 \<or> row > int (length (rs_data c))
         then (False, c\<lparr>currentRow := int (length (rs_data c))\<rparr>)
         else (True, c\<lparr>currentRow := row - 1\<rparr>))"

definition relative :: "DatalatheResultSet \<Rightarrow> int \<Rightarrow> bool \<times> DatalatheResultSet" where
  "relative c rows = absolute c (currentRow c + 1 + rows)"

subsection \<open>Position checks\<close>

definition isBeforeFirst :: "DatalatheResultSet \<Rightarrow> bool" where
  "isBeforeFirst c = (length (rs_data c) > 0 \<and> currentRow c = -1)"

definition isAfterLast :: "DatalatheResultSet \<Rightarrow> bool" where
  "isAfterLast c = (length (rs_data c) > 0 \<and> currentRow c \<ge> int (length (rs_data c)))"

definition isFirst :: "DatalatheResultSet \<Rightarrow> bool" where
  "isFirst c = (length (rs_data c) > 0 \<and> currentRow c = 0)"

definition isLast :: "DatalatheResultSet \<Rightarrow> bool" where
  "isLast c = (length (rs_data c) > 0 \<and> currentRow c = int (length (rs_data c)) - 1)"

definition getRow :: "DatalatheResultSet \<Rightarrow> int" where
  "getRow c =
     (if currentRow c < 0 \<or> currentRow c \<ge> int (length (rs_data c)) then 0
      else currentRow c + 1)"

subsection \<open>Sequences of navigation calls\<close>

datatype nav =
  Next | Previous | First | Last | BeforeFirst | AfterLast | Absolute int | Relative int

fun nav_call :: "DatalatheResultSet \<Rightarrow> nav \<Rightarrow> DatalatheResultSet" where
  "nav_call c Next = snd (next_rs c)"
| "nav_call c Previous = snd (previous c)"
| "nav_call c First = snd (first c)"
| "nav_call c Last = snd (last_rs c)"
| "nav_call c BeforeFirst = beforeFirst c"
| "nav_call c AfterLast = afterLast c"
| "nav_call c (Absolute n) = snd (absolute c n)"
| "nav_call c (Relative d) = snd (relative c d)"

definition nav_calls :: "DatalatheResultSet \<Rightarrow> nav list \<Rightarrow> DatalatheResultSet" where
  "nav_calls c ns = foldl nav_call c ns"

text \<open>\<open>n\<close> consecutive calls of \<open>next()\<close>: the booleans returned, in order, and the cursor left.\<close>

fun nexts :: "nat \<Rightarrow> DatalatheResultSet \<Rightarrow> bool list \<times> DatalatheResultSet" where
  "nexts 0 c = ([], c)"
| "nexts (Suc n) c =
     (case next_rs c of (b, c1) \<Rightarrow> (case nexts n c1 of (bs, c2) \<Rightarrow> (b # bs, c2)))"

section \<open>Value accessors\<close>

text \<open>
  Every failure of the class is \<open>throw new Error(message)\<close>; the constructors name the three
  messages (\<open>No current row\<close>, \<open>Invalid column index: i\<close>, \<open>Column not found: label\<close>).
  \<open>TypeError\<close> is what the language raises for a method call on \<open>undefined\<close>.
\<close>

datatype js_error =
  NoCurrentRow | InvalidColumnIndex int | ColumnNotFound string | TypeError

text \<open>An accessor's argument \<open>column: number | string\<close>.\<close>

datatype column = ByIndex int | ByName string

text \<open>
  The numbers the accessors return: the literal \<open>0\<close>, or what the built-in
  \<open>parseInt(s, 10)\<close> and \<open>parseFloat(s)\<close> give for a text \<open>s\<close>. The built-ins belong to the
  language, so their results are kept as applications to the text.
\<close>

datatype number = Lit int | ParseInt string | ParseFloat string

datatype js_value = JUndefined | JNull | JString string | JNumber number | JBoolean bool

text \<open>\<open>String.prototype.toLowerCase\<close> on the ASCII letters.\<close>

definition lower_char :: "char \<Rightarrow> char" where
  "lower_char ch =
     (case map_of (zip ''ABCDEFGHIJKLMNOPQRSTUVWXYZ'' ''abcdefghijklmnopqrstuvwxyz'') ch of
        None \<Rightarrow> ch
      | Some l \<Rightarrow> l)"

definition toLowerCase :: "string \<Rightarrow> string" where
  "toLowerCase s = map lower_char s"

text \<open>\<open>Array.prototype.findIndex\<close>: the index of the first element that satisfies the
  predicate, \<open>-1\<close> when there is none.\<close>

fun findIndex :: "('a \<Rightarrow> bool) \<Rightarrow> 'a list \<Rightarrow> int" where
  "findIndex P [] = -1"
| "findIndex P (x # xs) =
     (if P x then 0 else (let r = findIndex P xs in if r = -1 then -1 else r + 1))"

definition findColumn :: "DatalatheResultSet \<Rightarrow> string \<Rightarrow> js_error + int" where
  "findColumn c columnLabel =
     (let idx = findIndex (\<lambda>s. toLowerCase (name s) = toLowerCase columnLabel) (rs_schema c)
      in if idx = -1 then Inl (ColumnNotFound columnLabel) else Inr (idx + 1))"

definition resolveColumn :: "DatalatheResultSet \<Rightarrow> column \<Rightarrow> js_error + int" where
  "resolveColumn c col = (case col of ByName s \<Rightarrow> findColumn c s | ByIndex i \<Rightarrow> Inr i)"

text \<open>Reading \<open>row[k]\<close>: \<open>undefined\<close> outside the row, no exception.\<close>

definition cell_at :: "string option list \<Rightarrow> int \<Rightarrow> string nullable" where
  "cell_at row k =
     (if 0 \<le> k \<and> k < int (length row)
      then (case row ! nat k of None \<Rightarrow> Null | Some s \<Rightarrow> Value s)
      else Undefined)"

definition getValue :: "DatalatheResultSet \<Rightarrow> int \<Rightarrow> js_error + string nullable" where
  "getValue c columnIndex =
     (if currentRow c < 0 \<or> currentRow c \<ge> int (length (rs_data c)) then Inl NoCurrentRow
      else if columnIndex < 1 \<or> columnIndex > int (length (rs_schema c))
      then Inl (InvalidColumnIndex columnIndex)
      else Inr (cell_at (rs_data c ! nat (currentRow c)) (columnIndex - 1)))"

text \<open>\<open>this.getValue(this.resolveColumn(column))\<close>: the column is resolved first.\<close>

definition read_cell :: "DatalatheResultSet \<Rightarrow> column \<Rightarrow> js_error + string nullable" where
  "read_cell c col =
     (case resolveColumn c col of Inl e \<Rightarrow> Inl e | Inr i \<Rightarrow> getValue c i)"

text \<open>The text a built-in parser sees: its argument converted to a string.\<close>

fun to_text :: "string nullable \<Rightarrow> string" where
  "to_text (Value s) = s"
| "to_text Null = ''null''"
| "to_text Undefined = ''undefined''"

definition getString ::
  "DatalatheResultSet \<Rightarrow> column \<Rightarrow> (js_error + string nullable) \<times> DatalatheResultSet" where
  "getString c col =
     (case read_cell c col of
        Inl e \<Rightarrow> (Inl e, c)
      | Inr v \<Rightarrow> (Inr v, c\<lparr>rs_wasNull := (v = Null)\<rparr>))"

definition getInt ::
  "DatalatheResultSet \<Rightarrow> column \<Rightarrow> (js_error + number) \<times> DatalatheResultSet" where
  "getInt c col =
     (case read_cell c col of
        Inl e \<Rightarrow> (Inl e, c)
      | Inr v \<Rightarrow> (Inr (if v = Null then Lit 0 else ParseInt (to_text v)),
                  c\<lparr>rs_wasNull := (v = Null)\<rparr>))"

definition getFloat ::
  "DatalatheResultSet \<Rightarrow> column \<Rightarrow> (js_error + number) \<times> DatalatheResultSet" where
  "getFloat c col =
     (case read_cell c col of
        Inl e \<Rightarrow> (Inl e, c)
      | Inr v \<Rightarrow> (Inr (if v = Null then Lit 0 else ParseFloat (to_text v)),
                  c\<lparr>rs_wasNull := (v = Null)\<rparr>))"

definition getDouble ::
  "DatalatheResultSet \<Rightarrow> column \<Rightarrow> (js_error + number) \<times> DatalatheResultSet" where
  "getDouble c col = getFloat c col"

text \<open>\<open>value !== null && value.toLowerCase() === "true"\<close>, after the flag is written.\<close>

definition getBoolean ::
  "DatalatheResultSet \<Rightarrow> column \<Rightarrow> (js_error + bool) \<times> DatalatheResultSet" where
  "getBoolean c col =
     (case read_cell c col of
        Inl e \<Rightarrow> (Inl e, c)
      | Inr v \<Rightarrow>
          (case v of
             Null \<Rightarrow> Inr False
           | Undefined \<Rightarrow> Inl TypeError
           | Value s \<Rightarrow> Inr (toLowerCase s = ''true''),
           c\<lparr>rs_wasNull := (v = Null)\<rparr>))"

text \<open>The \<open>switch\<close> of \<open>getObject\<close> on the column's declared type, for a cell that is not
  \<open>null\<close>.\<close>

definition coerce :: "string \<Rightarrow> string nullable \<Rightarrow> js_error + js_value" where
  "coerce dataType v =
     (if dataType = ''Int32'' \<or> dataType = ''Int64'' then Inr (JNumber (ParseInt (to_text v)))
      else if dataType = ''Float32'' \<or> dataType = ''Float64''
      then Inr (JNumber (ParseFloat (to_text v)))
      else if dataType = ''Boolean''
      then (case v of Value s \<Rightarrow> Inr (JBoolean (toLowerCase s = ''true''))
                    | _ \<Rightarrow> Inl TypeError)
      else (case v of Value s \<Rightarrow> Inr (JString s) | Null \<Rightarrow> Inr JNull
                    | Undefined \<Rightarrow> Inr JUndefined))"

definition getObject ::
  "DatalatheResultSet \<Rightarrow> column \<Rightarrow> (js_error + js_value) \<times> DatalatheResultSet" where
  "getObject c col =
     (case resolveColumn c col of
        Inl e \<Rightarrow> (Inl e, c)
      | Inr columnIndex \<Rightarrow>
          (case getValue c columnIndex of
             Inl e \<Rightarrow> (Inl e, c)
           | Inr v \<Rightarrow>
               (if v = Null then Inr JNull
                else coerce (data_type (rs_schema c ! nat (columnIndex - 1))) v,
                c\<lparr>rs_wasNull := (v = Null)\<rparr>)))"

definition wasNull :: "DatalatheResultSet \<Rightarrow> bool" where
  "wasNull c = rs_wasNull c"

section \<open>Bulk extraction\<close>

text \<open>
  A row of the result, \<open>Record<string, string | number | boolean | null>\<close>, is an object
  made by the literal \<open>{}\<close>: its own properties with their values, in the order of their
  creation, and its prototype, which is \<open>Object.prototype\<close> until it is set to \<open>null\<close>.
  (An object lists properties whose names are integer indices first; the order is used by
  no statement below.)
\<close>

record js_record =
  null_prototype :: bool
  properties :: "(string \<times> js_value) list"

definition empty_record :: js_record where
  "empty_record = \<lparr> null_prototype = False, properties = [] \<rparr>"

text \<open>
  The assignment \<open>row[key] = v\<close>. It overwrites the own property \<open>key\<close> in place or adds it
  at the end, except for the key \<open>__proto__\<close> while the prototype is \<open>Object.prototype\<close>:
  the assignment then runs the setter inherited from the prototype, which sets the prototype
  to \<open>null\<close> when \<open>v\<close> is \<open>null\<close>, does nothing for any other value of a cell, and creates no
  property either way.
\<close>

definition set_property :: "js_record \<Rightarrow> string \<Rightarrow> js_value \<Rightarrow> js_record" where
  "set_property row key v =
     (if key = ''__proto__'' \<and> \<not> null_prototype row
      then (if v = JNull then row\<lparr>null_prototype := True\<rparr> else row)
      else row\<lparr>properties := AList.update key v (properties row)\<rparr>)"

text \<open>The own property \<open>key\<close> of a record: \<open>None\<close> when the record has no such property.\<close>

definition get_property :: "js_record \<Rightarrow> string \<Rightarrow> js_value option" where
  "get_property row key = map_of (properties row) key"

lemma getObject_frame:
  "rs_schema (snd (getObject c col)) = rs_schema c"
  "rs_data (snd (getObject c col)) = rs_data c"
  "currentRow (snd (getObject c col)) = currentRow c"
  by (simp_all add: getObject_def split: sum.splits)

text \<open>
  The inner loop of \<open>toArray\<close>,
  \<open>for (let i = 1; i <= this.schema.length; i++) row[this.schema[i - 1].name] = this.getObject(i)\<close>,
  from the counter \<open>i\<close> on. An exception of \<open>getObject\<close> leaves the loop.
\<close>

function for_columns ::
  "int \<Rightarrow> DatalatheResultSet \<Rightarrow> js_record \<Rightarrow> (js_error + js_record) \<times> DatalatheResultSet" where
  "for_columns i c row =
     (if i \<le> int (length (rs_schema c)) then
        (case getObject c (ByIndex i) of
           (Inl e, c') \<Rightarrow> (Inl e, c')
         | (Inr v, c') \<Rightarrow>
             for_columns (i + 1) c' (set_property row (name (rs_schema c ! nat (i - 1))) v))
      else (Inr row, c))"
  by pat_completeness auto
termination
proof (relation "measure (\<lambda>(i, c, row). nat (int (length (rs_schema c)) + 1 - i))")
  fix i c and row :: js_record and x1 c' and v :: js_value
  assume "i \<le> int (length (rs_schema c))" and "(x1, c') = getObject c (ByIndex i)"
  then have "rs_schema c' = rs_schema c"
    using getObject_frame(1) [of c "ByIndex i"] by (metis snd_conv)
  with \<open>i \<le> int (length (rs_schema c))\<close>
  show "((i + 1, c', set_property row (name (rs_schema c ! nat (i - 1))) v), (i, c, row))
        \<in> measure (\<lambda>(i, c, row). nat (int (length (rs_schema c)) + 1 - i))"
    by simp
qed simp

declare for_columns.simps [simp del]

lemma for_columns_frame:
  "rs_schema (snd (for_columns i c row)) = rs_schema c \<and>
   rs_data (snd (for_columns i c row)) = rs_data c \<and>
   currentRow (snd (for_columns i c row)) = currentRow c"
proof (induction i c row rule: for_columns.induct)
  case (1 i c row)
  show ?case
  proof (cases "i \<le> int (length (rs_schema c))")
    case False
    then show ?thesis by (simp add: for_columns.simps [of i c row])
  next
    case True
    obtain r c' where g: "getObject c (ByIndex i) = (r, c')"
      by (cases "getObject c (ByIndex i)")
    have fr: "rs_schema c' = rs_schema c" "rs_data c' = rs_data c" "currentRow c' = currentRow c"
      using getObject_frame [of c "ByIndex i"] g by simp_all
    show ?thesis
    proof (cases r)
      case (Inl e)
      with True g fr show ?thesis by (simp add: for_columns.simps [of i c row])
    next
      case (Inr v)
      have eq: "for_columns i c row =
          for_columns (i + 1) c' (set_property row (name (rs_schema c ! nat (i - 1))) v)"
        using True g Inr by (simp add: for_columns.simps [of i c row])
      from "1.IH" [OF True g [symmetric] Inr] show ?thesis
        unfolding eq fr .
    qed
  qed
qed

text \<open>
  The outer loop, \<open>while (this.next()) { const row = {}; ...; rows.push(row) }\<close>, with the
  rows pushed so far.
\<close>

function while_next ::
  "DatalatheResultSet \<Rightarrow> js_record list \<Rightarrow> (js_error + js_record list) \<times> DatalatheResultSet" where
  "while_next c rows =
     (case next_rs c of
        (True, c1) \<Rightarrow>
          (case for_columns 1 c1 empty_record of
             (Inl e, c2) \<Rightarrow> (Inl e, c2)
           | (Inr row, c2) \<Rightarrow> while_next c2 (rows @ [row]))
      | (False, c1) \<Rightarrow> (Inr rows, c1))"
  by pat_completeness auto
termination
proof (relation "measure (\<lambda>(c, rows). nat (int (length (rs_data c)) - currentRow c))")
  fix c and rows :: "js_record list" and b c1 r c2 and row :: js_record
  assume n: "(b, c1) = next_rs c" and b: "b = True"
    and f: "(r, c2) = for_columns 1 c1 empty_record"
  have c1: "currentRow c1 = currentRow c + 1" "rs_data c1 = rs_data c"
    and lt: "currentRow c + 1 < int (length (rs_data c))"
    using n b by (auto simp: next_rs_def Let_def)
  have "currentRow c2 = currentRow c1" "rs_data c2 = rs_data c1"
    using for_columns_frame [of 1 c1 empty_record] f by (metis snd_conv)+
  with c1 lt show "((c2, rows @ [row]), (c, rows))
      \<in> measure (\<lambda>(c, rows). nat (int (length (rs_data c)) - currentRow c))"
    by simp
qed simp

declare while_next.simps [simp del]

text \<open>
  \<open>toArray\<close>: the position is saved, the rows are walked from before the first one, and the
  position is written back when the loop has ended. There is no \<open>finally\<close>: an exception
  in the loop leaves the position where the loop stood.
\<close>

definition toArray ::
  "DatalatheResultSet \<Rightarrow> (js_error + js_record list) \<times> DatalatheResultSet" where
  "toArray c =
     (let saved = currentRow c
      in case while_next (beforeFirst c) [] of
           (Inl e, c') \<Rightarrow> (Inl e, c')
         | (Inr rows, c') \<Rightarrow> (Inr rows, c'\<lparr>currentRow := saved\<rparr>))"

text \<open>
  What \<open>getObject\<close> yields for the cell \<open>j\<close> (counted from \<open>0\<close>) of a row \<open>r\<close> under the
  schema \<open>S\<close>, and the record the inner loop builds for the row when no cell fails.
\<close>

definition cell_object ::
  "SchemaField list \<Rightarrow> string option list \<Rightarrow> nat \<Rightarrow> js_error + js_value" where
  "cell_object S r j =
     (if cell_at r (int j) = Null then Inr JNull
      else coerce (data_type (S ! j)) (cell_at r (int j)))"

definition row_record :: "SchemaField list \<Rightarrow> string option list \<Rightarrow> js_record" where
  "row_record S r =
     foldl (\<lambda>m j. set_property m (name (S ! j)) (projr (cell_object S r j)))
       empty_record [0..<length S]"

text \<open>
  No column of type \<open>Boolean\<close> lies past the end of a row: the one case in which
  \<open>getObject\<close> calls \<open>toLowerCase\<close> on \<open>undefined\<close>. It holds whenever every row has at
  least as many cells as the schema has columns.
\<close>

definition cells_ok :: "DatalatheResultSet \<Rightarrow> bool" where
  "cells_ok c =
     (\<forall>row \<in> set (rs_data c). \<forall>f \<in> set (drop (length row) (rs_schema c)).
        data_type f \<noteq> ''Boolean'')"

text \<open>
  Every scalar accessor, called on the cursor \<open>c\<close> with the column \<open>col\<close>, throws \<open>e\<close> and
  leaves the cursor, position and flag, as it was.
\<close>

definition all_throw :: "DatalatheResultSet \<Rightarrow> column \<Rightarrow> js_error \<Rightarrow> bool" where
  "all_throw c col e =
     (getString c col = (Inl e, c) \<and> getInt c col = (Inl e, c) \<and>
      getFloat c col = (Inl e, c) \<and> getDouble c col = (Inl e, c) \<and>
      getBoolean c col = (Inl e, c) \<and> getObject c col = (Inl e, c))"

section \<open>Response entries of the test suite\<close>

text \<open>The entry every test of \<open>result-set.test.ts\<close> starts from, and the empty one.\<close>

definition test_result :: ReportResultEntry where
  "test_result =
     \<lparr> idx = ''0'',
       result = Value
         [[Some ''1'', Some ''John'', Some ''30'', Some ''true'', Some ''95.5''],
          [Some ''2'', Some ''Jane'', Some ''25'', Some ''false'', Some ''88.0''],
          [Some ''3'', None, Some ''35'', Some ''true'', None]],
       data = Undefined,
       error = Null,
       schema = Value
         [\<lparr>name = ''id'', data_type = ''Int32''\<rparr>,
          \<lparr>name = ''name'', data_type = ''Utf8''\<rparr>,
          \<lparr>name = ''age'', data_type = ''Int32''\<rparr>,
          \<lparr>name = ''active'', data_type = ''Boolean''\<rparr>,
          \<lparr>name = ''score'', data_type = ''Float64''\<rparr>] \<rparr>"

definition test_emptyResult :: ReportResultEntry where
  "test_emptyResult =
     \<lparr> idx = ''0'', result = Value [], data = Undefined, error = Null, schema = Value [] \<rparr>"

text \<open>The entry of \<open>testNullResultFallsBackToData\<close>.\<close>

definition test_nullResult :: ReportResultEntry where
  "test_nullResult =
     \<lparr> idx = ''0'', result = Null, data = Value [[Some ''42'']], error = Null,
       schema = Value [\<lparr>name = ''id'', data_type = ''Int32''\<rparr>] \<rparr>"

text \<open>An entry with a column name that occurs twice and a column named \<open>__proto__\<close>.\<close>

definition repeated_names :: ReportResultEntry where
  "repeated_names =
     \<lparr> idx = ''0'', result = Value [[Some ''x'', Some ''y'', Some ''z'']],
       data = Undefined, error = Null,
       schema = Value [\<lparr>name = ''a'', data_type = ''Utf8''\<rparr>,
                       \<lparr>name = ''a'', data_type = ''Utf8''\<rparr>,
                       \<lparr>name = ''__proto__'', data_type = ''Utf8''\<rparr>] \<rparr>"

text \<open>An entry whose second row has no cell for the column \<open>active\<close>.\<close>

definition short_row :: ReportResultEntry where
  "short_row =
     \<lparr> idx = ''0'', result = Value [[Some ''1'', Some ''true''], [Some ''2'']],
       data = Undefined, error = Null,
       schema = Value [\<lparr>name = ''id'', data_type = ''Int32''\<rparr>,
                       \<lparr>name = ''active'', data_type = ''Boolean''\<rparr>] \<rparr>"

section \<open>The range of the cursor position\<close>

lemmas nav_defs =
  next_rs_def previous_def first_def last_rs_def beforeFirst_def afterLast_def
  absolute_def relative_def

text \<open>
  From a position in \<open>[-1, rowCount]\<close> every navigation call leads to a position in that
  range, but for \<open>next()\<close> called at \<open>rowCount\<close>: \<open>previous\<close> stops at its end, and
  \<open>afterLast\<close>, \<open>absolute\<close> and \<open>relative\<close> put a position past the rows at \<open>rowCount\<close>.
\<close>

lemma nav_call_in_range:
  assumes "-1 \<le> currentRow c" "currentRow c \<le> rowCount c"
    and "n = Next \<longrightarrow> currentRow c < rowCount c"
  shows "-1 \<le> currentRow (nav_call c n) \<and> currentRow (nav_call c n) \<le> rowCount (nav_call c n)"
  using assms by (cases n) (auto simp: nav_defs Let_def rowCount_def)

text \<open>
  Claim C1: after any sequence of navigation calls on a new cursor the position lies in
  \<open>[-1, rowCount]\<close>. The code breaks it, in \<open>next()\<close> alone: over the three rows of the test
  suite five calls of \<open>next()\<close> (the rows, the end, and one more) leave the position at
  \<open>4\<close>. From there \<open>previous()\<close> returns true at position \<open>3\<close>, which is no row. With
  \<open>relative(1)\<close> in place of the fifth \<open>next()\<close> the position stays at \<open>3\<close>.
\<close>

theorem position_overshoot:
  "rowCount (nav_calls (new_rs test_result) [Next, Next, Next, Next, Next]) = 3 \<and>
   currentRow (nav_calls (new_rs test_result) [Next, Next, Next, Next]) = 3 \<and>
   currentRow (nav_calls (new_rs test_result) [Next, Next, Next, Next, Next]) = 4 \<and>
   fst (previous (nav_calls (new_rs test_result) [Next, Next, Next, Next, Next])) \<and>
   getRow (snd (previous (nav_calls (new_rs test_result) [Next, Next, Next, Next, Next]))) = 0 \<and>
   currentRow (nav_calls (new_rs test_result) [Next, Next, Next, Next, Relative 1]) = 3"
  by (simp add: nav_calls_def nav_defs new_rs_def test_result_def rowCount_def getRow_def)

section \<open>Stepping with next\<close>

lemma nexts_closed_form:
  "nexts k c =
     (map (\<lambda>j. currentRow c + int j + 1 < int (length (rs_data c))) [0..<k],
      c\<lparr>currentRow := currentRow c + int k\<rparr>)"
proof (induction k arbitrary: c)
  case 0
  show ?case by simp
next
  case (Suc k)
  show ?case
    by (simp add: Suc.IH next_rs_def Let_def map_upt_Suc add.commute add.left_commute
        del: upt_Suc)
qed

text \<open>
  From a position below \<open>rowCount\<close> (and at least \<open>-1\<close>), \<open>next()\<close> advances by one and
  returns true iff the new position indexes a row; when it returns false the position is
  \<open>rowCount\<close>. From before-first, over \<open>R\<close> rows, the first \<open>R\<close> calls return true and the
  next one false, and after \<open>k \<le> R\<close> calls \<open>getRow()\<close> is \<open>k\<close>.
\<close>

lemma next_rs_below_rowCount:
  assumes "-1 \<le> currentRow c" "currentRow c < rowCount c"
  shows "currentRow (snd (next_rs c)) = currentRow c + 1 \<and>
    fst (next_rs c) =
      (0 \<le> currentRow (snd (next_rs c)) \<and> currentRow (snd (next_rs c)) < rowCount c) \<and>
    (\<not> fst (next_rs c) \<longrightarrow> currentRow (snd (next_rs c)) = rowCount c) \<and>
    (currentRow c = -1 \<longrightarrow>
       fst (nexts (length (rs_data c) + 1) c) = replicate (length (rs_data c)) True @ [False] \<and>
       currentRow (snd (nexts (length (rs_data c) + 1) c)) = rowCount c \<and>
       (\<forall>k \<le> length (rs_data c).
          fst (nexts k c) = replicate k True \<and> getRow (snd (nexts k c)) = int k))"
proof -
  have step: "currentRow (snd (next_rs c)) = currentRow c + 1"
    by (simp add: next_rs_def Let_def)
  have ret: "fst (next_rs c) =
      (0 \<le> currentRow (snd (next_rs c)) \<and> currentRow (snd (next_rs c)) < rowCount c)"
    using assms(1) by (auto simp: next_rs_def Let_def rowCount_def)
  have stay: "\<not> fst (next_rs c) \<longrightarrow> currentRow (snd (next_rs c)) = rowCount c"
    using assms(2) by (auto simp: next_rs_def Let_def rowCount_def)
  have run: "fst (nexts k c) = replicate k True \<and> getRow (snd (nexts k c)) = int k"
    if "currentRow c = -1" "k \<le> length (rs_data c)" for k
  proof -
    have "map (\<lambda>j. int j < int (length (rs_data c))) [0..<k] = replicate k True"
      using that(2) by (intro replicate_eqI) auto
    with that show ?thesis
      by (simp add: nexts_closed_form getRow_def)
  qed
  have last: "fst (nexts (length (rs_data c) + 1) c) = replicate (length (rs_data c)) True @ [False]
      \<and> currentRow (snd (nexts (length (rs_data c) + 1) c)) = rowCount c"
    if "currentRow c = -1"
  proof -
    have "map (\<lambda>j. int j < int (length (rs_data c))) [0..<length (rs_data c)]
        = replicate (length (rs_data c)) True"
      by (intro replicate_eqI) auto
    with that show ?thesis
      by (simp add: nexts_closed_form rowCount_def)
  qed
  from step ret stay run last show ?thesis by blast
qed

text \<open>
  Claim C2: from every starting position, a \<open>next()\<close> that returns false leaves the position
  at \<open>rowCount\<close>. The code breaks it from after-last: over the three rows of the test suite,
  \<open>afterLast()\<close> puts the position at \<open>3\<close>, and \<open>next()\<close> returns false with the position at
  \<open>4\<close>, where \<open>relative(1)\<close> returns false with the position at \<open>3\<close>.
\<close>

theorem next_rs_overshoot:
  "rowCount (afterLast (new_rs test_result)) = 3 \<and>
   currentRow (afterLast (new_rs test_result)) = 3 \<and>
   next_rs (afterLast (new_rs test_result))
     = (False, (afterLast (new_rs test_result))\<lparr>currentRow := 4\<rparr>) \<and>
   relative (afterLast (new_rs test_result)) 1 = (False, afterLast (new_rs test_result))"
  by (simp add: nav_defs new_rs_def test_result_def rowCount_def)

section \<open>The grid a cursor wraps\<close>

text \<open>
  Claim C3: the constructor takes the grid from the primary field \<open>result\<close> whenever that
  field holds a list, the empty list included, and turns to the fallback field \<open>data\<close> only
  when the primary field holds no list: it is \<open>null\<close> or missing, the two cases \<open>??\<close>
  does not tell apart (with no list in the fallback either, the grid is empty).
\<close>

theorem constructor_grid:
  "(result e = Value g \<longrightarrow> rs_data (new_rs e) = g) \<and>
   (result e = Null \<or> result e = Undefined \<longrightarrow>
      rs_data (new_rs e) = (case data e of Value g' \<Rightarrow> g' | _ \<Rightarrow> []))"
proof (cases "result e")
  case (Value g')
  then show ?thesis by (simp add: new_rs_def)
next
  case Null
  then show ?thesis by (cases "data e") (simp_all add: new_rs_def)
next
  case Undefined
  then show ?thesis by (cases "data e") (simp_all add: new_rs_def)
qed

theorem constructor_grid_witness:
  "rs_data (new_rs (test_nullResult\<lparr>result := Value []\<rparr>)) = [] \<and>
   rs_data (new_rs test_nullResult) = [[Some ''42'']] \<and>
   rs_data (new_rs (test_nullResult\<lparr>result := Undefined\<rparr>)) = [[Some ''42'']]"
  using constructor_grid [of "test_nullResult\<lparr>result := Value []\<rparr>" "[]"]
    constructor_grid [of test_nullResult]
    constructor_grid [of "test_nullResult\<lparr>result := Undefined\<rparr>"]
  by (simp add: test_nullResult_def)

section \<open>absolute(-1) and last()\<close>

text \<open>
  Claim C7, as it is written: \<open>absolute(-1)\<close> and \<open>last()\<close> return the same boolean and
  leave the same position, also over an empty grid. The positions differ there: on the new
  cursor over the empty grid of the test suite both return false, \<open>absolute(-1)\<close> leaves the
  position at \<open>0\<close> and \<open>last()\<close> leaves it at \<open>-1\<close>.
\<close>

theorem absolute_minus_one_counterexample:
  "fst (absolute (new_rs test_emptyResult) (-1)) = fst (last_rs (new_rs test_emptyResult)) \<and>
   currentRow (snd (absolute (new_rs test_emptyResult) (-1))) = 0 \<and>
   currentRow (snd (last_rs (new_rs test_emptyResult))) = -1"
  by (simp add: absolute_def last_rs_def new_rs_def test_emptyResult_def)

text \<open>
  Claim C7, amended: from every cursor and position \<open>absolute(-1)\<close> and \<open>last()\<close> return the
  same boolean; over a non-empty grid they also leave the same cursor. Over an empty grid
  \<open>absolute(-1)\<close> sets the position to \<open>0\<close> (which is \<open>rowCount\<close>) and \<open>last()\<close> does not
  move.
\<close>

theorem absolute_minus_one:
  "fst (absolute c (-1)) = fst (last_rs c) \<and>
   (rs_data c \<noteq> [] \<longrightarrow> absolute c (-1) = last_rs c) \<and>
   (rs_data c = [] \<longrightarrow>
      absolute c (-1) = (False, c\<lparr>currentRow := 0\<rparr>) \<and> last_rs c = (False, c))"
proof (cases "rs_data c")
  case Nil
  then show ?thesis by (simp add: absolute_def last_rs_def)
next
  case (Cons r rs)
  then show ?thesis by (simp add: absolute_def last_rs_def)
qed

theorem absolute_minus_one_witness:
  "absolute (new_rs test_result) (-1) = last_rs (new_rs test_result) \<and>
   fst (last_rs (new_rs test_result)) \<and>
   currentRow (snd (last_rs (new_rs test_result))) = 2 \<and>
   absolute (new_rs test_emptyResult) (-1)
     = (False, (new_rs test_emptyResult)\<lparr>currentRow := 0\<rparr>) \<and>
   last_rs (new_rs test_emptyResult) = (False, new_rs test_emptyResult)"
  using absolute_minus_one [of "new_rs test_result"]
    absolute_minus_one [of "new_rs test_emptyResult"]
  by (simp add: new_rs_def test_result_def test_emptyResult_def last_rs_def)

section \<open>Column lookup\<close>

lemma findIndex_none: "(\<forall>x \<in> set xs. \<not> P x) \<Longrightarrow> findIndex P xs = -1"
  by (induction xs) simp_all

lemma findIndex_first:
  "k < length xs \<Longrightarrow> P (xs ! k) \<Longrightarrow> (\<forall>j < k. \<not> P (xs ! j)) \<Longrightarrow> findIndex P xs = int k"
proof (induction xs arbitrary: k)
  case Nil
  then show ?case by simp
next
  case (Cons x xs)
  show ?case
  proof (cases k)
    case 0
    with Cons.prems show ?thesis by simp
  next
    case (Suc m)
    with Cons.prems have "\<not> P x" by auto
    moreover have "findIndex P xs = int m"
    proof (rule Cons.IH)
      show "m < length xs" using Cons.prems(1) Suc by simp
      show "P (xs ! m)" using Cons.prems(2) Suc by simp
      show "\<forall>j < m. \<not> P (xs ! j)"
      proof (intro allI impI)
        fix j assume "j < m"
        then have "Suc j < k" using Suc by simp
        with Cons.prems(3) have "\<not> P ((x # xs) ! Suc j)" by blast
        then show "\<not> P (xs ! j)" by simp
      qed
    qed
    ultimately show ?thesis using Suc by (simp add: Let_def)
  qed
qed

text \<open>
  Claim C8: \<open>findColumn\<close> returns the 1-based index of the first column whose name equals
  the label after both are lowered, and when no column matches it throws the error
  \<open>Column not found\<close> that carries the label.
\<close>

theorem findColumn_first_match:
  "(\<forall>k. k < length (rs_schema c) \<and>
        toLowerCase (name (rs_schema c ! k)) = toLowerCase columnLabel \<and>
        (\<forall>j < k. toLowerCase (name (rs_schema c ! j)) \<noteq> toLowerCase columnLabel) \<longrightarrow>
        findColumn c columnLabel = Inr (int k + 1)) \<and>
   ((\<forall>s \<in> set (rs_schema c). toLowerCase (name s) \<noteq> toLowerCase columnLabel) \<longrightarrow>
        findColumn c columnLabel = Inl (ColumnNotFound columnLabel))"
proof (intro conjI allI impI)
  fix k
  assume h: "k < length (rs_schema c) \<and>
        toLowerCase (name (rs_schema c ! k)) = toLowerCase columnLabel \<and>
        (\<forall>j < k. toLowerCase (name (rs_schema c ! j)) \<noteq> toLowerCase columnLabel)"
  let ?P = "\<lambda>s. toLowerCase (name s) = toLowerCase columnLabel"
  have "findIndex ?P (rs_schema c) = int k"
    using h by (intro findIndex_first) auto
  then show "findColumn c columnLabel = Inr (int k + 1)"
    by (simp add: findColumn_def)
next
  assume "\<forall>s \<in> set (rs_schema c). toLowerCase (name s) \<noteq> toLowerCase columnLabel"
  then have "findIndex (\<lambda>s. toLowerCase (name s) = toLowerCase columnLabel) (rs_schema c) = -1"
    by (intro findIndex_none) auto
  then show "findColumn c columnLabel = Inl (ColumnNotFound columnLabel)"
    by (simp add: findColumn_def)
qed

theorem findColumn_first_match_witness:
  "findColumn (new_rs test_result) ''Name'' = Inr 2 \<and>
   findColumn (new_rs test_result) ''nonexistent'' = Inl (ColumnNotFound ''nonexistent'')"
  using findColumn_first_match [of "new_rs test_result" "''Name''"]
    findColumn_first_match [of "new_rs test_result" "''nonexistent''"]
  by (simp add: new_rs_def test_result_def toLowerCase_def lower_char_def findColumn_def)

section \<open>Reading a null cell\<close>

lemmas accessor_defs =
  getString_def getInt_def getFloat_def getDouble_def getBoolean_def getObject_def

lemmas eval_defs =
  new_rs_def test_result_def next_rs_def resolveColumn_def findColumn_def toLowerCase_def
  lower_char_def cell_at_def getValue_def read_cell_def coerce_def

lemma read_cell_value:
  assumes "0 \<le> currentRow c" "currentRow c < int (length (rs_data c))"
    and "resolveColumn c col = Inr i" "1 \<le> i" "i \<le> int (length (rs_schema c))"
  shows "read_cell c col = Inr (cell_at (rs_data c ! nat (currentRow c)) (i - 1))"
    and "getValue c i = Inr (cell_at (rs_data c ! nat (currentRow c)) (i - 1))"
  using assms by (simp_all add: read_cell_def getValue_def)

text \<open>
  Claim C4: on a valid row, for a column whose cell is \<open>null\<close>, \<open>getString\<close> returns
  \<open>null\<close>, \<open>getInt\<close> returns \<open>0\<close>, \<open>getFloat\<close> and \<open>getDouble\<close> return \<open>0\<close>, \<open>getBoolean\<close>
  returns false and \<open>getObject\<close> returns \<open>null\<close>, each leaving the cursor as it was but for
  the flag, which is true; and an accessor called afterwards, on any valid row and column
  whose cell holds a text, leaves the flag false.
\<close>

theorem null_cell_accessors:
  assumes row: "0 \<le> currentRow c" "currentRow c < int (length (rs_data c))"
    and col: "resolveColumn c col = Inr i" "1 \<le> i" "i \<le> int (length (rs_schema c))"
    and cell: "cell_at (rs_data c ! nat (currentRow c)) (i - 1) = Null"
  shows "getString c col = (Inr Null, c\<lparr>rs_wasNull := True\<rparr>) \<and>
    getInt c col = (Inr (Lit 0), c\<lparr>rs_wasNull := True\<rparr>) \<and>
    getFloat c col = (Inr (Lit 0), c\<lparr>rs_wasNull := True\<rparr>) \<and>
    getDouble c col = (Inr (Lit 0), c\<lparr>rs_wasNull := True\<rparr>) \<and>
    getBoolean c col = (Inr False, c\<lparr>rs_wasNull := True\<rparr>) \<and>
    getObject c col = (Inr JNull, c\<lparr>rs_wasNull := True\<rparr>) \<and>
    wasNull (c\<lparr>rs_wasNull := True\<rparr>) \<and>
    (\<forall>d col' i' s.
       0 \<le> currentRow d \<and> currentRow d < int (length (rs_data d)) \<and>
       resolveColumn d col' = Inr i' \<and> 1 \<le> i' \<and> i' \<le> int (length (rs_schema d)) \<and>
       cell_at (rs_data d ! nat (currentRow d)) (i' - 1) = Value s \<longrightarrow>
       \<not> wasNull (snd (getString d col')) \<and> \<not> wasNull (snd (getInt d col')) \<and>
       \<not> wasNull (snd (getFloat d col')) \<and> \<not> wasNull (snd (getDouble d col')) \<and>
       \<not> wasNull (snd (getBoolean d col')) \<and> \<not> wasNull (snd (getObject d col')))"
proof -
  let ?c = "c\<lparr>rs_wasNull := True\<rparr>"
  have r: "read_cell c col = Inr Null" "getValue c i = Inr Null"
    using read_cell_value [OF row col] cell by simp_all
  have null: "getString c col = (Inr Null, ?c)" "getInt c col = (Inr (Lit 0), ?c)"
    "getFloat c col = (Inr (Lit 0), ?c)" "getDouble c col = (Inr (Lit 0), ?c)"
    "getBoolean c col = (Inr False, ?c)" "getObject c col = (Inr JNull, ?c)"
    using r col(1) by (simp_all add: accessor_defs)
  have nonnull: "\<not> wasNull (snd (getString d col')) \<and> \<not> wasNull (snd (getInt d col')) \<and>
       \<not> wasNull (snd (getFloat d col')) \<and> \<not> wasNull (snd (getDouble d col')) \<and>
       \<not> wasNull (snd (getBoolean d col')) \<and> \<not> wasNull (snd (getObject d col'))"
    if d: "0 \<le> currentRow d" "currentRow d < int (length (rs_data d))"
      "resolveColumn d col' = Inr i'" "1 \<le> i'" "i' \<le> int (length (rs_schema d))"
      and s: "cell_at (rs_data d ! nat (currentRow d)) (i' - 1) = Value s"
    for d col' i' s
  proof -
    have "read_cell d col' = Inr (Value s)" "getValue d i' = Inr (Value s)"
      using read_cell_value [OF d] s by simp_all
    then show ?thesis
      using d(3) by (simp add: accessor_defs wasNull_def)
  qed
  from null nonnull show ?thesis by (simp add: wasNull_def)
qed

theorem null_cell_accessors_witness:
  "getString (snd (last_rs (new_rs test_result))) (ByIndex 2)
     = (Inr Null, (snd (last_rs (new_rs test_result)))\<lparr>rs_wasNull := True\<rparr>) \<and>
   getDouble (snd (last_rs (new_rs test_result))) (ByName ''score'')
     = (Inr (Lit 0), (snd (last_rs (new_rs test_result)))\<lparr>rs_wasNull := True\<rparr>) \<and>
   wasNull (snd (getString (snd (last_rs (new_rs test_result))) (ByIndex 2))) \<and>
   \<not> wasNull (snd (getInt ((snd (last_rs (new_rs test_result)))\<lparr>rs_wasNull := True\<rparr>)
        (ByName ''age'')))"
proof -
  let ?c = "snd (last_rs (new_rs test_result))"
  let ?d = "?c\<lparr>rs_wasNull := True\<rparr>"
  have c: "?c = \<lparr> rs_data =
         [[Some ''1'', Some ''John'', Some ''30'', Some ''true'', Some ''95.5''],
          [Some ''2'', Some ''Jane'', Some ''25'', Some ''false'', Some ''88.0''],
          [Some ''3'', None, Some ''35'', Some ''true'', None]],
       rs_schema =
         [\<lparr>name = ''id'', data_type = ''Int32''\<rparr>,
          \<lparr>name = ''name'', data_type = ''Utf8''\<rparr>,
          \<lparr>name = ''age'', data_type = ''Int32''\<rparr>,
          \<lparr>name = ''active'', data_type = ''Boolean''\<rparr>,
          \<lparr>name = ''score'', data_type = ''Float64''\<rparr>],
       currentRow = 2, rs_wasNull = False \<rparr>"
    by (simp add: last_rs_def new_rs_def test_result_def)
  have row: "0 \<le> currentRow ?c" "currentRow ?c < int (length (rs_data ?c))"
    unfolding c by simp_all
  have name: "resolveColumn ?c (ByIndex 2) = Inr 2" "(1::int) \<le> 2"
    "2 \<le> int (length (rs_schema ?c))"
    "cell_at (rs_data ?c ! nat (currentRow ?c)) (2 - 1) = Null"
    unfolding c by (simp_all add: eval_defs)
  have score: "resolveColumn ?c (ByName ''score'') = Inr 5" "(1::int) \<le> 5"
    "5 \<le> int (length (rs_schema ?c))"
    "cell_at (rs_data ?c ! nat (currentRow ?c)) (5 - 1) = Null"
    unfolding c by (simp_all add: eval_defs)
  have age: "0 \<le> currentRow ?d \<and> currentRow ?d < int (length (rs_data ?d)) \<and>
    resolveColumn ?d (ByName ''age'') = Inr 3 \<and> (1::int) \<le> 3 \<and>
    3 \<le> int (length (rs_schema ?d)) \<and>
    cell_at (rs_data ?d ! nat (currentRow ?d)) (3 - 1) = Value ''35''"
    unfolding c by (simp add: eval_defs)
  note n = null_cell_accessors [OF row name]
  note s = null_cell_accessors [OF row score]
  from n have 1: "getString ?c (ByIndex 2) = (Inr Null, ?d)" by (rule conjunct1)
  from s have 2: "getDouble ?c (ByName ''score'') = (Inr (Lit 0), ?d)" by blast
  from n have "\<forall>d col' i' s.
       0 \<le> currentRow d \<and> currentRow d < int (length (rs_data d)) \<and>
       resolveColumn d col' = Inr i' \<and> 1 \<le> i' \<and> i' \<le> int (length (rs_schema d)) \<and>
       cell_at (rs_data d ! nat (currentRow d)) (i' - 1) = Value s \<longrightarrow>
       \<not> wasNull (snd (getInt d col'))" by blast
  with age have 3: "\<not> wasNull (snd (getInt ?d (ByName ''age'')))" by blast
  from 1 2 3 show ?thesis by (simp add: wasNull_def)
qed

section \<open>Accessors that fail\<close>

lemma all_throw_read_cell: "read_cell c col = Inl e \<Longrightarrow> all_throw c col e"
  by (auto simp: all_throw_def accessor_defs read_cell_def split: sum.splits)

text \<open>
  Claim C9, as it is written: with no valid current row every scalar accessor call fails
  with the navigation error. It fails for a column name that matches no column: the name is
  resolved before the row is looked at, so the call on the new cursor of the test suite
  fails with \<open>Column not found\<close>.
\<close>

theorem accessor_failure_counterexample:
  "currentRow (new_rs test_result) = -1 \<and>
   getString (new_rs test_result) (ByName ''nonexistent'')
     = (Inl (ColumnNotFound ''nonexistent''), new_rs test_result) \<and>
   fst (getString (new_rs test_result) (ByName ''nonexistent'')) \<noteq> Inl NoCurrentRow"
  by (simp add: getString_def eval_defs)

text \<open>
  Claim C9, amended: with no valid current row every scalar accessor call fails and leaves
  position and flag unchanged; the error is the navigation error whenever the column
  reference resolves (an index, or a name that matches a column), and \<open>Column not found\<close>
  for a name that matches none. Likewise a call whose resolved index lies outside
  \<open>[1, columnCount]\<close> fails without changing the cursor: with the index error on a valid
  row, with the navigation error otherwise.
\<close>

theorem accessor_failure:
  "(\<not> (0 \<le> currentRow c \<and> currentRow c < int (length (rs_data c))) \<longrightarrow>
      all_throw c col (case resolveColumn c col of Inl e \<Rightarrow> e | Inr i \<Rightarrow> NoCurrentRow)) \<and>
   (\<forall>i. resolveColumn c col = Inr i \<and> (i < 1 \<or> int (length (rs_schema c)) < i) \<longrightarrow>
      all_throw c col
        (if 0 \<le> currentRow c \<and> currentRow c < int (length (rs_data c))
         then InvalidColumnIndex i else NoCurrentRow))"
proof (intro conjI allI impI)
  assume "\<not> (0 \<le> currentRow c \<and> currentRow c < int (length (rs_data c)))"
  then have "read_cell c col =
      Inl (case resolveColumn c col of Inl e \<Rightarrow> e | Inr i \<Rightarrow> NoCurrentRow)"
    by (auto simp: read_cell_def getValue_def split: sum.splits)
  then show "all_throw c col (case resolveColumn c col of Inl e \<Rightarrow> e | Inr i \<Rightarrow> NoCurrentRow)"
    by (rule all_throw_read_cell)
next
  fix i
  assume "resolveColumn c col = Inr i \<and> (i < 1 \<or> int (length (rs_schema c)) < i)"
  then have "read_cell c col =
      Inl (if 0 \<le> currentRow c \<and> currentRow c < int (length (rs_data c))
           then InvalidColumnIndex i else NoCurrentRow)"
    by (auto simp: read_cell_def getValue_def)
  then show "all_throw c col
        (if 0 \<le> currentRow c \<and> currentRow c < int (length (rs_data c))
         then InvalidColumnIndex i else NoCurrentRow)"
    by (rule all_throw_read_cell)
qed

theorem accessor_failure_witness:
  "all_throw (new_rs test_result) (ByIndex 1) NoCurrentRow \<and>
   all_throw (afterLast (new_rs test_result)) (ByName ''id'') NoCurrentRow \<and>
   all_throw (new_rs test_result) (ByName ''nonexistent'') (ColumnNotFound ''nonexistent'') \<and>
   all_throw (snd (next_rs (new_rs test_result))) (ByIndex 6) (InvalidColumnIndex 6) \<and>
   all_throw (new_rs test_result) (ByIndex 0) NoCurrentRow"
  using accessor_failure [of "new_rs test_result" "ByIndex 1"]
    accessor_failure [of "afterLast (new_rs test_result)" "ByName ''id''"]
    accessor_failure [of "new_rs test_result" "ByName ''nonexistent''"]
    accessor_failure [of "snd (next_rs (new_rs test_result))" "ByIndex 6"]
    accessor_failure [of "new_rs test_result" "ByIndex 0"]
  by (simp add: eval_defs afterLast_def)

section \<open>Bulk extraction with toArray\<close>

lemma getObject_index:
  assumes "0 \<le> currentRow c" "currentRow c < int (length (rs_data c))"
    and "1 \<le> i" "i \<le> int (length (rs_schema c))"
  shows "getObject c (ByIndex i) =
     (cell_object (rs_schema c) (rs_data c ! nat (currentRow c)) (nat (i - 1)),
      c\<lparr>rs_wasNull := (cell_at (rs_data c ! nat (currentRow c)) (i - 1) = Null)\<rparr>)"
  using assms by (simp add: getObject_def resolveColumn_def getValue_def cell_object_def)

lemma for_columns_returns:
  assumes "for_columns i c row = (Inr row', c')"
    and "0 \<le> currentRow c" "currentRow c < int (length (rs_data c))" "1 \<le> i"
  shows "(\<forall>j. nat (i - 1) \<le> j \<and> j < length (rs_schema c) \<longrightarrow>
            (\<exists>v. cell_object (rs_schema c) (rs_data c ! nat (currentRow c)) j = Inr v)) \<and>
         row' = foldl (\<lambda>m j. set_property m (name (rs_schema c ! j))
                   (projr (cell_object (rs_schema c) (rs_data c ! nat (currentRow c)) j)))
                 row [nat (i - 1)..<length (rs_schema c)] \<and>
         c' = (if i \<le> int (length (rs_schema c))
               then c\<lparr>rs_wasNull := (cell_at (rs_data c ! nat (currentRow c))
                        (int (length (rs_schema c)) - 1) = Null)\<rparr>
               else c)"
  using assms
proof (induction i c row rule: for_columns.induct)
  case (1 i c row)
  let ?S = "rs_schema c" and ?r = "rs_data c ! nat (currentRow c)"
  show ?case
  proof (cases "i \<le> int (length ?S)")
    case False
    with "1.prems" have "row' = row" "c' = c"
      by (simp_all add: for_columns.simps [of i c row])
    moreover from False have "length ?S \<le> nat (i - 1)" by simp
    ultimately show ?thesis using False apply - apply (intro conjI allI impI) apply linarith apply simp apply simp done
  next
    case True
    let ?c1 = "c\<lparr>rs_wasNull := (cell_at ?r (i - 1) = Null)\<rparr>"
    have g: "getObject c (ByIndex i) = (cell_object ?S ?r (nat (i - 1)), ?c1)"
      using "1.prems"(2-4) True by (rule getObject_index)
    show ?thesis
    proof (cases "cell_object ?S ?r (nat (i - 1))")
      case (Inl e)
      with g True "1.prems"(1) show ?thesis by (simp add: for_columns.simps [of i c row])
    next
      case (Inr v)
      let ?row1 = "set_property row (name (?S ! nat (i - 1))) v"
      have eq: "for_columns i c row = for_columns (i + 1) ?c1 ?row1"
        using True g Inr by (simp add: for_columns.simps [of i c row])
      have IH: "(\<forall>j. nat (i + 1 - 1) \<le> j \<and> j < length ?S \<longrightarrow> (\<exists>v. cell_object ?S ?r j = Inr v)) \<and>
         row' = foldl (\<lambda>m j. set_property m (name (?S ! j)) (projr (cell_object ?S ?r j)))
                 ?row1 [nat (i + 1 - 1)..<length ?S] \<and>
         c' = (if i + 1 \<le> int (length ?S)
               then ?c1\<lparr>rs_wasNull := (cell_at ?r (int (length ?S) - 1) = Null)\<rparr>
               else ?c1)"
      proof -
        have p1: "for_columns (i + 1) ?c1 ?row1 = (Inr row', c')"
          using "1.prems"(1) unfolding eq .
        have p2: "0 \<le> currentRow ?c1" "currentRow ?c1 < int (length (rs_data ?c1))" "1 \<le> i + 1"
          using "1.prems"(2-4) by simp_all
        from "1.IH" [OF True g [symmetric] Inr p1 p2] show ?thesis by simp
      qed
      have idx: "nat (i + 1 - 1) = Suc (nat (i - 1))" "nat (i - 1) < length ?S"
        using "1.prems"(4) True by simp_all
      have upt: "[nat (i - 1)..<length ?S] = nat (i - 1) # [Suc (nat (i - 1))..<length ?S]"
        using idx(2) by (simp add: upt_conv_Cons)
      have all: "\<forall>j. nat (i - 1) \<le> j \<and> j < length ?S \<longrightarrow> (\<exists>v. cell_object ?S ?r j = Inr v)"
      proof (intro allI impI)
        fix j assume j: "nat (i - 1) \<le> j \<and> j < length ?S"
        show "\<exists>v. cell_object ?S ?r j = Inr v"
        proof (cases "j = nat (i - 1)")
          case True
          with Inr show ?thesis by simp
        next
          case False
          with j have "nat (i + 1 - 1) \<le> j \<and> j < length ?S" using idx(1) by simp
          with IH show ?thesis by blast
        qed
      qed
      have st: "c' = c\<lparr>rs_wasNull := (cell_at ?r (int (length ?S) - 1) = Null)\<rparr>"
      proof (cases "i + 1 \<le> int (length ?S)")
        case True
        with IH show ?thesis by simp
      next
        case False
        with \<open>i \<le> int (length ?S)\<close> have "i = int (length ?S)" by simp
        with IH False show ?thesis by simp
      qed
      let ?F = "\<lambda>m j. set_property m (name (?S ! j)) (projr (cell_object ?S ?r j))"
      have rows: "row' = foldl ?F row [nat (i - 1)..<length ?S]"
      proof -
        from IH have "row' = foldl ?F ?row1 [nat (i + 1 - 1)..<length ?S]" by blast
        also have "\<dots> = foldl ?F ?row1 [Suc (nat (i - 1))..<length ?S]"
          by (simp only: idx(1))
        also have "\<dots> = foldl ?F row (nat (i - 1) # [Suc (nat (i - 1))..<length ?S])"
          by (simp only: foldl_Cons Inr sum.sel)
        also have "\<dots> = foldl ?F row [nat (i - 1)..<length ?S]"
          by (simp only: upt [symmetric])
        finally show ?thesis .
      qed
      from all rows st True show ?thesis by (simp only: if_True simp_thms)
    qed
  qed
qed


lemma for_columns_total:
  assumes "0 \<le> currentRow c" "currentRow c < int (length (rs_data c))" "1 \<le> i"
    and "\<forall>j. nat (i - 1) \<le> j \<and> j < length (rs_schema c) \<longrightarrow>
            (\<exists>v. cell_object (rs_schema c) (rs_data c ! nat (currentRow c)) j = Inr v)"
  shows "\<exists>row' c'. for_columns i c row = (Inr row', c')"
  using assms
proof (induction i c row rule: for_columns.induct)
  case (1 i c row)
  let ?S = "rs_schema c" and ?r = "rs_data c ! nat (currentRow c)"
  show ?case
  proof (cases "i \<le> int (length ?S)")
    case False
    then show ?thesis by (simp add: for_columns.simps [of i c row])
  next
    case True
    let ?c1 = "c\<lparr>rs_wasNull := (cell_at ?r (i - 1) = Null)\<rparr>"
    have g: "getObject c (ByIndex i) = (cell_object ?S ?r (nat (i - 1)), ?c1)"
      using "1.prems"(1-3) True by (rule getObject_index)
    have "nat (i - 1) < length ?S" using True "1.prems"(3) by simp
    with "1.prems"(4) obtain v where v: "cell_object ?S ?r (nat (i - 1)) = Inr v" by blast
    let ?row1 = "set_property row (name (?S ! nat (i - 1))) v"
    have eq: "for_columns i c row = for_columns (i + 1) ?c1 ?row1"
      using True g v by (simp add: for_columns.simps [of i c row])
    have p: "0 \<le> currentRow ?c1" "currentRow ?c1 < int (length (rs_data ?c1))" "1 \<le> i + 1"
      using "1.prems"(1-3) by simp_all
    have q: "\<forall>j. nat (i + 1 - 1) \<le> j \<and> j < length (rs_schema ?c1) \<longrightarrow>
            (\<exists>v. cell_object (rs_schema ?c1) (rs_data ?c1 ! nat (currentRow ?c1)) j = Inr v)"
      using "1.prems"(3,4) by auto
    from "1.IH" [OF True g [symmetric] v p q] show ?thesis
      unfolding eq .
  qed
qed

lemma cells_ok_object:
  assumes "cells_ok c" "r \<in> set (rs_data c)" "j < length (rs_schema c)"
  shows "\<exists>v. cell_object (rs_schema c) r j = Inr v"
proof (cases "cell_at r (int j)")
  case Null
  then show ?thesis by (simp add: cell_object_def)
next
  case (Value s)
  then show ?thesis by (simp add: cell_object_def coerce_def)
next
  case Undefined
  then have "length r \<le> j" by (auto simp: cell_at_def split: if_splits option.splits)
  then have "rs_schema c ! j \<in> set (drop (length r) (rs_schema c))"
    using assms(3) by (auto simp: in_set_conv_nth intro!: exI [of _ "j - length r"])
  with assms(1,2) have "data_type (rs_schema c ! j) \<noteq> ''Boolean''"
    by (auto simp: cells_ok_def)
  with Undefined show ?thesis by (simp add: cell_object_def coerce_def)
qed



lemma next_rs_eq:
  "next_rs c = (currentRow c + 1 < int (length (rs_data c)), c\<lparr>currentRow := currentRow c + 1\<rparr>)"
  by (simp add: next_rs_def Let_def)

lemma while_next_frame:
  "rs_data (snd (while_next c rows)) = rs_data c \<and>
   rs_schema (snd (while_next c rows)) = rs_schema c"
proof (induction c rows rule: while_next.induct)
  case (1 c rows)
  let ?c1 = "c\<lparr>currentRow := currentRow c + 1\<rparr>"
  show ?case
  proof (cases "currentRow c + 1 < int (length (rs_data c))")
    case False
    then show ?thesis by (simp add: while_next.simps [of c rows] next_rs_eq)
  next
    case True
    obtain r c2 where f: "for_columns 1 ?c1 empty_record = (r, c2)"
      by (cases "for_columns 1 ?c1 empty_record")
    have fr: "rs_data c2 = rs_data c" "rs_schema c2 = rs_schema c"
      using for_columns_frame [of 1 ?c1 empty_record] f by simp_all
    show ?thesis
    proof (cases r)
      case (Inl e)
      with True f fr show ?thesis by (simp add: while_next.simps [of c rows] next_rs_eq)
    next
      case (Inr row)
      have eq: "while_next c rows = while_next c2 (rows @ [row])"
        using True f Inr by (simp add: while_next.simps [of c rows] next_rs_eq)
      have b: "(currentRow c + 1 < int (length (rs_data c))) = True" using True by simp
      from "1.IH" [OF next_rs_eq [symmetric] b f [symmetric] Inr] fr show ?thesis
        unfolding eq by simp
    qed
  qed
qed

lemma while_next_records:
  assumes "cells_ok c" "-1 \<le> currentRow c"
  shows "fst (while_next c rows) =
     Inr (rows @ map (row_record (rs_schema c)) (drop (nat (currentRow c + 1)) (rs_data c)))"
  using assms
proof (induction c rows rule: while_next.induct)
  case (1 c rows)
  let ?c1 = "c\<lparr>currentRow := currentRow c + 1\<rparr>"
  show ?case
  proof (cases "currentRow c + 1 < int (length (rs_data c))")
    case False
    then have "drop (nat (currentRow c + 1)) (rs_data c) = []" by simp
    with False show ?thesis by (simp add: while_next.simps [of c rows] next_rs_eq)
  next
    case True
    let ?r = "rs_data c ! nat (currentRow c + 1)"
    have v: "0 \<le> currentRow ?c1" "currentRow ?c1 < int (length (rs_data ?c1))" "(1::int) \<le> 1"
      using "1.prems"(2) True by simp_all
    have r_in: "?r \<in> set (rs_data c)" using True "1.prems"(2) by simp
    have ok: "\<forall>j. nat (1 - 1) \<le> j \<and> j < length (rs_schema ?c1) \<longrightarrow>
        (\<exists>v. cell_object (rs_schema ?c1) (rs_data ?c1 ! nat (currentRow ?c1)) j = Inr v)"
      using cells_ok_object [OF "1.prems"(1) r_in] by simp
    obtain row c2 where f: "for_columns 1 ?c1 empty_record = (Inr row, c2)"
      using for_columns_total [OF v ok] by blast
    have row: "row = row_record (rs_schema c) ?r"
      using for_columns_returns [OF f v] by (simp add: row_record_def)
    have fr: "rs_data c2 = rs_data c" "rs_schema c2 = rs_schema c"
      "currentRow c2 = currentRow c + 1"
      using for_columns_frame [of 1 ?c1 empty_record] f by simp_all
    have eq: "while_next c rows = while_next c2 (rows @ [row])"
      using True f by (simp add: while_next.simps [of c rows] next_rs_eq)
    have b: "(currentRow c + 1 < int (length (rs_data c))) = True" using True by simp
    have ok2: "cells_ok c2" using "1.prems"(1) fr by (simp add: cells_ok_def)
    have lo2: "-1 \<le> currentRow c2" using "1.prems"(2) fr by simp
    have IH: "fst (while_next c2 (rows @ [row])) =
        Inr ((rows @ [row]) @ map (row_record (rs_schema c2))
               (drop (nat (currentRow c2 + 1)) (rs_data c2)))"
      by (rule "1.IH" [OF next_rs_eq [symmetric] b f [symmetric] refl ok2 lo2])
    have suc: "nat (currentRow c + 1 + 1) = Suc (nat (currentRow c + 1))"
      using "1.prems"(2) by simp
    have "drop (nat (currentRow c + 1)) (rs_data c) =
        ?r # drop (Suc (nat (currentRow c + 1))) (rs_data c)"
      using True "1.prems"(2) by (intro Cons_nth_drop_Suc [symmetric]) simp
    with IH show ?thesis
      unfolding eq fr suc row by simp
  qed
qed

lemma while_next_wasNull:
  assumes "fst (while_next c rows) = Inr rs" "-1 \<le> currentRow c" "rs_schema c \<noteq> []"
  shows "rs_wasNull (snd (while_next c rows)) =
     (if currentRow c + 1 < int (length (rs_data c))
      then cell_at (last (rs_data c)) (int (length (rs_schema c)) - 1) = Null
      else rs_wasNull c)"
  using assms
proof (induction c rows rule: while_next.induct)
  case (1 c rows)
  let ?c1 = "c\<lparr>currentRow := currentRow c + 1\<rparr>"
  show ?case
  proof (cases "currentRow c + 1 < int (length (rs_data c))")
    case False
    then show ?thesis by (simp add: while_next.simps [of c rows] next_rs_eq)
  next
    case True
    let ?r = "rs_data c ! nat (currentRow c + 1)"
    let ?n = "int (length (rs_schema c))"
    have v: "0 \<le> currentRow ?c1" "currentRow ?c1 < int (length (rs_data ?c1))" "(1::int) \<le> 1"
      using "1.prems"(2) True by simp_all
    obtain r c2 where f: "for_columns 1 ?c1 empty_record = (r, c2)"
      by (cases "for_columns 1 ?c1 empty_record")
    show ?thesis
    proof (cases r)
      case (Inl e)
      with True f have "while_next c rows = (Inl e, c2)"
        by (simp add: while_next.simps [of c rows] next_rs_eq)
      with "1.prems"(1) show ?thesis by simp
    next
      case (Inr row)
      have eq: "while_next c rows = while_next c2 (rows @ [row])"
        using True f Inr by (simp add: while_next.simps [of c rows] next_rs_eq)
      have "1 \<le> ?n" using "1.prems"(3) by (cases "rs_schema c") simp_all
      with for_columns_returns [OF f [unfolded Inr] v]
      have c2: "c2 = ?c1\<lparr>rs_wasNull := (cell_at ?r (?n - 1) = Null)\<rparr>" by simp
      have b: "(currentRow c + 1 < int (length (rs_data c))) = True" using True by simp
      have p1: "fst (while_next c2 (rows @ [row])) = Inr rs" using "1.prems"(1) eq by simp
      have p2: "-1 \<le> currentRow c2" "rs_schema c2 \<noteq> []" using "1.prems"(2,3) c2 by simp_all
      have IH: "rs_wasNull (snd (while_next c2 (rows @ [row]))) =
          (if currentRow c2 + 1 < int (length (rs_data c2))
           then cell_at (last (rs_data c2)) (int (length (rs_schema c2)) - 1) = Null
           else rs_wasNull c2)"
        by (rule "1.IH" [OF next_rs_eq [symmetric] b f [symmetric] Inr p1 p2])
      show ?thesis
      proof (cases "currentRow c + 1 + 1 < int (length (rs_data c))")
        case True
        with IH \<open>currentRow c + 1 < int (length (rs_data c))\<close> show ?thesis
          unfolding eq c2 by simp
      next
        case False
        with \<open>currentRow c + 1 < int (length (rs_data c))\<close>
        have "nat (currentRow c + 1) = length (rs_data c) - 1" by simp
        moreover have "rs_data c \<noteq> []" using \<open>currentRow c + 1 < int (length (rs_data c))\<close> "1.prems"(2) by auto
        ultimately have "?r = last (rs_data c)" by (simp add: last_conv_nth)
        with IH False \<open>currentRow c + 1 < int (length (rs_data c))\<close> show ?thesis
          unfolding eq c2 by simp
      qed
    qed
  qed
qed


lemma set_property_keys:
  "fst ` set (properties (set_property m k v)) - {''__proto__''} =
   insert k (fst ` set (properties m)) - {''__proto__''}"
  by (auto simp: set_property_def dom_update)

lemma set_property_lookup:
  "k \<noteq> ''__proto__'' \<Longrightarrow> get_property (set_property m k v) k = Some v"
  "k' \<noteq> k \<Longrightarrow> get_property (set_property m k v) k' = get_property m k'"
  by (simp_all add: set_property_def get_property_def update_conv')

lemma foldl_set_property_keys:
  "fst ` set (properties (foldl (\<lambda>m j. set_property m (f j) (g j)) m0 js)) - {''__proto__''} =
   (fst ` set (properties m0) \<union> f ` set js) - {''__proto__''}"
proof (induction js arbitrary: m0)
  case Nil
  show ?case by simp
next
  case (Cons j js)
  have "fst ` set (properties (foldl (\<lambda>m j. set_property m (f j) (g j)) m0 (j # js)))
          - {''__proto__''} =
        (fst ` set (properties (set_property m0 (f j) (g j))) - {''__proto__''})
          \<union> (f ` set js - {''__proto__''})"
    using Cons.IH [of "set_property m0 (f j) (g j)"] by (simp add: Un_Diff)
  also have "\<dots> = (insert (f j) (fst ` set (properties m0)) - {''__proto__''})
          \<union> (f ` set js - {''__proto__''})"
    by (simp only: set_property_keys)
  also have "\<dots> = (fst ` set (properties m0) \<union> f ` set (j # js)) - {''__proto__''}"
    by auto
  finally show ?case .
qed

lemma foldl_set_property_lookup:
  assumes "a \<le> j" "j < b" "f j \<noteq> ''__proto__''" "\<forall>j'. j < j' \<and> j' < b \<longrightarrow> f j' \<noteq> f j"
  shows "get_property (foldl (\<lambda>m j. set_property m (f j) (g j)) m0 [a..<b]) (f j) = Some (g j)"
  using assms
proof (induction b)
  case 0
  then show ?case by simp
next
  case (Suc b)
  have ab: "a \<le> b" using Suc.prems(1,2) by simp
  show ?case
  proof (cases "j = b")
    case True
    with ab Suc.prems(3) show ?thesis
      by (simp add: set_property_lookup)
  next
    case False
    with Suc.prems(2) have jb: "j < b" by simp
    then have "f b \<noteq> f j" using Suc.prems(4) by blast
    then have ne: "f j \<noteq> f b" by (rule not_sym)
    have "get_property (foldl (\<lambda>m j. set_property m (f j) (g j)) m0 [a..<b]) (f j) = Some (g j)"
      using Suc.prems(1,3,4) jb by (intro Suc.IH) auto
    with ab ne show ?thesis
      by (simp add: set_property_lookup)
  qed
qed

lemma row_record_keys:
  "fst ` set (properties (row_record S r)) - {''__proto__''} = name ` set S - {''__proto__''}"
proof -
  have "map (\<lambda>j. name (S ! j)) [0..<length S] = map name S"
    by (rule nth_equalityI) simp_all
  then have "(\<lambda>j. name (S ! j)) ` set [0..<length S] = name ` set S"
    by (metis list.set_map)
  then show ?thesis
    unfolding row_record_def foldl_set_property_keys by (simp add: empty_record_def)
qed

lemma row_record_lookup:
  assumes "j < length S" "name (S ! j) \<noteq> ''__proto__''"
    and "\<forall>j'. j < j' \<and> j' < length S \<longrightarrow> name (S ! j') \<noteq> name (S ! j)"
  shows "get_property (row_record S r) (name (S ! j)) = Some (projr (cell_object S r j))"
  unfolding row_record_def
  using foldl_set_property_lookup
    [of 0 j "length S" "\<lambda>j. name (S ! j)" "\<lambda>j. projr (cell_object S r j)" empty_record] assms
  by simp

lemma toArray_eq:
  assumes "cells_ok c"
  shows "toArray c =
     (Inr (map (row_record (rs_schema c)) (rs_data c)),
      (snd (while_next (beforeFirst c) []))\<lparr>currentRow := currentRow c\<rparr>)"
proof -
  let ?b = "beforeFirst c"
  have ok: "cells_ok ?b" using assms by (simp add: cells_ok_def beforeFirst_def)
  have "fst (while_next ?b []) =
      Inr ([] @ map (row_record (rs_schema ?b)) (drop (nat (currentRow ?b + 1)) (rs_data ?b)))"
    by (rule while_next_records [OF ok]) (simp add: beforeFirst_def)
  then have "fst (while_next ?b []) = Inr (map (row_record (rs_schema c)) (rs_data c))"
    by (simp add: beforeFirst_def)
  then show ?thesis
    by (cases "while_next ?b []") (simp add: toArray_def)
qed

lemma toArray_returns: "cells_ok c \<Longrightarrow> \<exists>rows c'. toArray c = (Inr rows, c')"
  using toArray_eq by blast


text \<open>
  Rows are not checked against the schema. Where a row has no cell for a \<open>Boolean\<close> column,
  \<open>getObject\<close> throws a \<open>TypeError\<close> and \<open>toArray\<close>, which has no \<open>finally\<close>, ends there
  with the position on that row.
\<close>

lemma toArray_short_row:
  "fst (toArray (new_rs short_row)) = Inl TypeError \<and>
   currentRow (new_rs short_row) = -1 \<and>
   currentRow (snd (toArray (new_rs short_row))) = 1"
  by code_simp

text \<open>
  Claim C6, as it is written: every record of \<open>toArray()\<close> maps every column name to the
  value \<open>getObject\<close> yields for that column's cell. It fails for a name that occurs twice and
  for the name \<open>__proto__\<close>. Over the columns \<open>a\<close>, \<open>a\<close>, \<open>__proto__\<close> and the row \<open>x\<close>, \<open>y\<close>,
  \<open>z\<close>, \<open>getObject\<close> yields \<open>x\<close>, \<open>y\<close> and \<open>z\<close>, and the record is \<open>{a: y}\<close>: the second
  column has overwritten the first, and the assignment to \<open>__proto__\<close> has created no
  property.
\<close>

theorem toArray_records_counterexample:
  "fst (getObject (snd (next_rs (new_rs repeated_names))) (ByIndex 1)) = Inr (JString ''x'') \<and>
   fst (getObject (snd (next_rs (new_rs repeated_names))) (ByIndex 2)) = Inr (JString ''y'') \<and>
   fst (getObject (snd (next_rs (new_rs repeated_names))) (ByIndex 3)) = Inr (JString ''z'') \<and>
   map_sum id (map properties) (fst (toArray (new_rs repeated_names)))
     = Inr [[(''a'', JString ''y'')]]"
  by code_simp

text \<open>
  Claim C6, amended: for every cursor in which each row has a cell for every \<open>Boolean\<close>
  column (so whenever each row has a cell for every column) and every position, \<open>toArray()\<close>
  returns one record per row of the grid, in row order. Leaving the name \<open>__proto__\<close> aside,
  the properties of each record are the column names, and each name holds the value
  \<open>getObject\<close> yields on that row for the last column of that name. After the call the
  position, the grid and the schema are what they were.
\<close>

theorem toArray_records:
  assumes "cells_ok c"
  shows "\<exists>rows c'. toArray c = (Inr rows, c') \<and>
      currentRow c' = currentRow c \<and> rs_data c' = rs_data c \<and> rs_schema c' = rs_schema c \<and>
      length rows = length (rs_data c) \<and>
      (\<forall>i < length (rs_data c).
         fst ` set (properties (rows ! i)) - {''__proto__''}
           = name ` set (rs_schema c) - {''__proto__''} \<and>
         (\<forall>j < length (rs_schema c).
            name (rs_schema c ! j) \<noteq> ''__proto__'' \<longrightarrow>
            (\<forall>j'. j < j' \<and> j' < length (rs_schema c) \<longrightarrow>
                  name (rs_schema c ! j') \<noteq> name (rs_schema c ! j)) \<longrightarrow>
            (\<exists>v. fst (getObject (c\<lparr>currentRow := int i\<rparr>) (ByIndex (int j + 1))) = Inr v \<and>
                 get_property (rows ! i) (name (rs_schema c ! j)) = Some v)))"
proof -
  let ?S = "rs_schema c"
  let ?rows = "map (row_record ?S) (rs_data c)"
  let ?c' = "(snd (while_next (beforeFirst c) []))\<lparr>currentRow := currentRow c\<rparr>"
  have t: "toArray c = (Inr ?rows, ?c')" using assms by (rule toArray_eq)
  have fr: "rs_data ?c' = rs_data c" "rs_schema ?c' = rs_schema c"
    using while_next_frame [of "beforeFirst c" "[]"] by (simp_all add: beforeFirst_def)
  have cells: "fst ` set (properties (?rows ! i)) - {''__proto__''}
           = name ` set ?S - {''__proto__''} \<and>
         (\<forall>j < length ?S.
            name (?S ! j) \<noteq> ''__proto__'' \<longrightarrow>
            (\<forall>j'. j < j' \<and> j' < length ?S \<longrightarrow> name (?S ! j') \<noteq> name (?S ! j)) \<longrightarrow>
            (\<exists>v. fst (getObject (c\<lparr>currentRow := int i\<rparr>) (ByIndex (int j + 1))) = Inr v \<and>
                 get_property (?rows ! i) (name (?S ! j)) = Some v))"
    if i: "i < length (rs_data c)" for i
  proof (intro conjI allI impI)
    show "fst ` set (properties (?rows ! i)) - {''__proto__''} = name ` set ?S - {''__proto__''}"
      using i by (simp add: row_record_keys)
  next
    fix j
    assume j: "j < length ?S" and np: "name (?S ! j) \<noteq> ''__proto__''"
      and last: "\<forall>j'. j < j' \<and> j' < length ?S \<longrightarrow> name (?S ! j') \<noteq> name (?S ! j)"
    let ?r = "rs_data c ! i"
    let ?ci = "c\<lparr>currentRow := int i\<rparr>"
    have "?r \<in> set (rs_data c)" using i by simp
    from cells_ok_object [OF assms this j] obtain v where v: "cell_object ?S ?r j = Inr v" ..
    have valid: "0 \<le> currentRow ?ci" "currentRow ?ci < int (length (rs_data ?ci))"
      "1 \<le> int j + 1" "int j + 1 \<le> int (length (rs_schema ?ci))"
      using i j by simp_all
    have g: "fst (getObject ?ci (ByIndex (int j + 1))) = Inr v"
      using getObject_index [OF valid] v by simp
    have "get_property (?rows ! i) (name (?S ! j)) = Some v"
      using row_record_lookup [OF j np last, of ?r] i v by simp
    with g show "\<exists>v. fst (getObject ?ci (ByIndex (int j + 1))) = Inr v \<and>
        get_property (?rows ! i) (name (?S ! j)) = Some v" by blast
  qed
  have "toArray c = (Inr ?rows, ?c') \<and>
      currentRow ?c' = currentRow c \<and> rs_data ?c' = rs_data c \<and> rs_schema ?c' = rs_schema c \<and>
      length ?rows = length (rs_data c)"
    using t fr by simp
  with cells show ?thesis by blast
qed

theorem toArray_records_witness:
  "cells_ok (snd (next_rs (new_rs test_result))) \<and>
   currentRow (snd (next_rs (new_rs test_result))) = 0 \<and>
   currentRow (snd (toArray (snd (next_rs (new_rs test_result))))) = 0 \<and>
   (\<exists>rows. fst (toArray (snd (next_rs (new_rs test_result)))) = Inr rows \<and>
      length rows = 3 \<and>
      get_property (rows ! 0) ''score'' = Some (JNumber (ParseFloat ''95.5'')) \<and>
      get_property (rows ! 2) ''score'' = Some JNull)"
proof -
  let ?c = "snd (next_rs (new_rs test_result))"
  have c: "?c = \<lparr> rs_data =
         [[Some ''1'', Some ''John'', Some ''30'', Some ''true'', Some ''95.5''],
          [Some ''2'', Some ''Jane'', Some ''25'', Some ''false'', Some ''88.0''],
          [Some ''3'', None, Some ''35'', Some ''true'', None]],
       rs_schema =
         [\<lparr>name = ''id'', data_type = ''Int32''\<rparr>,
          \<lparr>name = ''name'', data_type = ''Utf8''\<rparr>,
          \<lparr>name = ''age'', data_type = ''Int32''\<rparr>,
          \<lparr>name = ''active'', data_type = ''Boolean''\<rparr>,
          \<lparr>name = ''score'', data_type = ''Float64''\<rparr>],
       currentRow = 0, rs_wasNull = False \<rparr>"
    by (simp add: next_rs_def new_rs_def test_result_def)
  have ok: "cells_ok ?c" unfolding c by (simp add: cells_ok_def)
  have d: "length (rs_data ?c) = 3" "length (rs_schema ?c) = 5" "currentRow ?c = 0"
    "name (rs_schema ?c ! 4) = ''score''"
    unfolding c by simp_all
  have np: "name (rs_schema ?c ! 4) \<noteq> ''__proto__''"
    unfolding d by simp
  have nodup: "\<forall>j'. 4 < j' \<and> j' < length (rs_schema ?c) \<longrightarrow>
      name (rs_schema ?c ! j') \<noteq> name (rs_schema ?c ! 4)"
    unfolding d by auto
  have g0: "fst (getObject (?c\<lparr>currentRow := int 0\<rparr>) (ByIndex (int 4 + 1)))
      = Inr (JNumber (ParseFloat ''95.5''))"
    unfolding c by (simp add: getObject_def resolveColumn_def getValue_def cell_at_def coerce_def)
  have g2: "fst (getObject (?c\<lparr>currentRow := int 2\<rparr>) (ByIndex (int 4 + 1))) = Inr JNull"
    unfolding c by (simp add: getObject_def resolveColumn_def getValue_def cell_at_def coerce_def)
  from toArray_records [OF ok] obtain rows where
    "\<exists>c'. toArray ?c = (Inr rows, c') \<and>
      currentRow c' = currentRow ?c \<and> rs_data c' = rs_data ?c \<and>
      rs_schema c' = rs_schema ?c \<and> length rows = length (rs_data ?c) \<and>
      (\<forall>i < length (rs_data ?c).
         fst ` set (properties (rows ! i)) - {''__proto__''}
           = name ` set (rs_schema ?c) - {''__proto__''} \<and>
         (\<forall>j < length (rs_schema ?c).
            name (rs_schema ?c ! j) \<noteq> ''__proto__'' \<longrightarrow>
            (\<forall>j'. j < j' \<and> j' < length (rs_schema ?c) \<longrightarrow>
                  name (rs_schema ?c ! j') \<noteq> name (rs_schema ?c ! j)) \<longrightarrow>
            (\<exists>v. fst (getObject (?c\<lparr>currentRow := int i\<rparr>) (ByIndex (int j + 1))) = Inr v \<and>
                 get_property (rows ! i) (name (rs_schema ?c ! j)) = Some v)))"
    (is "\<exists>c'. ?P c'") ..
  then obtain c' where all: "?P c'" ..
  note t = all [THEN conjunct1]
    and pos = all [THEN conjunct2, THEN conjunct1]
    and len = all [THEN conjunct2, THEN conjunct2, THEN conjunct2, THEN conjunct2, THEN conjunct1]
    and cells = all [THEN conjunct2, THEN conjunct2, THEN conjunct2, THEN conjunct2, THEN conjunct2]
  have i0: "(0::nat) < length (rs_data ?c)" and i2: "(2::nat) < length (rs_data ?c)"
    and j4: "(4::nat) < length (rs_schema ?c)"
    unfolding d by simp_all
  from cells [rule_format, OF i0, THEN conjunct2, rule_format, OF j4 np nodup [rule_format]]
  have r0: "get_property (rows ! 0) ''score'' = Some (JNumber (ParseFloat ''95.5''))"
    unfolding g0 d by simp
  from cells [rule_format, OF i2, THEN conjunct2, rule_format, OF j4 np nodup [rule_format]]
  have r2: "get_property (rows ! 2) ''score'' = Some JNull"
    unfolding g2 d by simp
  have "length rows = 3" using len unfolding d .
  with ok t pos r0 r2 d(3) show ?thesis by simp
qed

section \<open>The flag after toArray\<close>

text \<open>
  Claim C10: \<open>toArray()\<close> writes back the position only. Over a grid with at least one row
  and a schema with at least one column, once \<open>toArray()\<close> has returned, \<open>wasNull()\<close> tells
  whether the cell of the last column in the last row is \<open>null\<close>, whatever the flag was
  before the call; the position is the one before the call.
\<close>

theorem toArray_wasNull:
  assumes "rs_data c \<noteq> []" "rs_schema c \<noteq> []" "toArray c = (Inr rows, c')"
  shows "wasNull c' = (cell_at (last (rs_data c)) (int (length (rs_schema c)) - 1) = Null) \<and>
         currentRow c' = currentRow c"
proof -
  let ?b = "beforeFirst c"
  obtain r c2 where w: "while_next ?b [] = (r, c2)" by (cases "while_next ?b []")
  with assms(3) have r: "r = Inr rows" and c': "c' = c2\<lparr>currentRow := currentRow c\<rparr>"
    by (auto simp: toArray_def split: sum.splits)
  have "rs_wasNull (snd (while_next ?b [])) =
     (if currentRow ?b + 1 < int (length (rs_data ?b))
      then cell_at (last (rs_data ?b)) (int (length (rs_schema ?b)) - 1) = Null
      else rs_wasNull ?b)"
    using w r assms(2) by (intro while_next_wasNull [where rs = rows]) (simp_all add: beforeFirst_def)
  with assms(1) w c' show ?thesis
    by (simp add: beforeFirst_def wasNull_def)
qed

theorem toArray_wasNull_witness:
  "\<not> wasNull (new_rs test_result) \<and>
   wasNull (snd (toArray (new_rs test_result))) \<and>
   wasNull ((new_rs test_nullResult)\<lparr>rs_wasNull := True\<rparr>) \<and>
   \<not> wasNull (snd (toArray ((new_rs test_nullResult)\<lparr>rs_wasNull := True\<rparr>)))"
proof -
  let ?c = "new_rs test_result"
  let ?d = "(new_rs test_nullResult)\<lparr>rs_wasNull := True\<rparr>"
  have "cells_ok ?c" by (simp add: cells_ok_def new_rs_def test_result_def)
  then obtain rows c' where t: "toArray ?c = (Inr rows, c')"
    using toArray_returns by blast
  have c: "rs_data ?c \<noteq> []" "rs_schema ?c \<noteq> []"
    by (simp_all add: new_rs_def test_result_def)
  have "wasNull c'"
    using toArray_wasNull [OF c t] by (simp add: new_rs_def test_result_def cell_at_def)
  then have 1: "wasNull (snd (toArray ?c))" using t by simp
  have "cells_ok ?d" by (simp add: cells_ok_def new_rs_def test_nullResult_def)
  then obtain rows' d' where t': "toArray ?d = (Inr rows', d')"
    using toArray_returns by blast
  have d: "rs_data ?d \<noteq> []" "rs_schema ?d \<noteq> []"
    by (simp_all add: new_rs_def test_nullResult_def)
  have "\<not> wasNull d'"
    using toArray_wasNull [OF d t'] by (simp add: new_rs_def test_nullResult_def cell_at_def)
  then have 2: "\<not> wasNull (snd (toArray ?d))" using t' by simp
  from 1 2 show ?thesis by (simp add: wasNull_def new_rs_def)
qed

end
